theory Spec2Isabelle
  imports Complex_Main "HOL-Library.AList"
begin

section \<open>Task inference from timesheet remarks (TF-IDF)\<close>

text \<open>
  The development follows the second script of \<^verbatim>\<open>src/summarize.ts\<close> (the task
  inference script): the tokenizer \<^verbatim>\<open>extract_words\<close>, the training loop that fills
  \<^verbatim>\<open>word_entries\<close> and \<^verbatim>\<open>total_remarks\<close>, the loop that derives \<^verbatim>\<open>idf_score\<close>, and
  the body of the inference loop.

  Conventions of the embedding.
  \<^item> A JavaScript string is a \<^typ>\<open>string\<close>; every \<^typ>\<open>char\<close> stands for one code unit
    below 256.
  \<^item> A JavaScript \<^verbatim>\<open>Map\<close> is an association list in insertion order with distinct keys:
    \<^verbatim>\<open>get\<close> is \<^const>\<open>map_of\<close>, \<^verbatim>\<open>set\<close> is \<^const>\<open>AList.update\<close> (an existing key keeps
    its position, a new key goes to the end).
  \<^item> Counters are natural numbers; scores are real numbers (exact arithmetic).
  \<^item> Dereferencing \<^verbatim>\<open>undefined\<close> is an error value.
\<close>

subsection \<open>Tokenizer\<close>

text \<open>The characters matched by \<^verbatim>\<open>\s\<close> among the code units below 256: tab, line feed,
  vertical tab, form feed, carriage return, space and no-break space.\<close>

definition is_space :: "char \<Rightarrow> bool" where
  "is_space c \<longleftrightarrow>
     c \<in> set [CHR 0x09, CHR 0x0A, CHR 0x0B, CHR 0x0C, CHR 0x0D, CHR 0x20, CHR 0xA0]"

text \<open>\<^verbatim>\<open>remark.split(/\s+/)\<close>: the pieces between the maximal runs of white space. A run at
  the start or at the end of the string leaves an empty piece there, and the empty string
  splits into one empty piece.\<close>

function split_ws :: "string \<Rightarrow> string list" where
  "split_ws s =
     (let piece = takeWhile (\<lambda>c. \<not> is_space c) s;
          rest = dropWhile (\<lambda>c. \<not> is_space c) s
      in if rest = [] then [piece] else piece # split_ws (dropWhile is_space rest))"
  by pat_completeness auto

termination split_ws
proof (relation "measure length")
  show "wf (measure length)" by simp
next
  fix s :: string and piece rest
  assume r: "rest = dropWhile (\<lambda>c. \<not> is_space c) s" and ne: "rest \<noteq> []"
  from ne obtain c cs where cs: "rest = c # cs" by (cases rest) auto
  from r cs have "dropWhile (\<lambda>c. \<not> is_space c) s = c # cs" by simp
  then have "is_space c" by (simp add: dropWhile_eq_Cons_conv)
  then have "length (dropWhile is_space rest) \<le> length cs"
    using cs by (simp add: length_dropWhile_le)
  also have "\<dots> < length rest" using cs by simp
  also have "\<dots> \<le> length s" using r by (simp add: length_dropWhile_le)
  finally show "(dropWhile is_space rest, s) \<in> measure length" by simp
qed

declare split_ws.simps [simp del]

text \<open>\<^verbatim>\<open>word.replaceAll(symbol, replacement)\<close> for a pattern of one character.\<close>

definition replaceAll :: "char \<Rightarrow> string \<Rightarrow> string \<Rightarrow> string" where
  "replaceAll symbol replacement word =
     concat (map (\<lambda>c. if c = symbol then replacement else [c]) word)"

text \<open>The lines of the template literal handed to \<^verbatim>\<open>extract_lines\<close> (trimmed, empty lines
  dropped); \<^verbatim>\<open>of\<close> is listed twice in the source.\<close>

definition skip_words :: "string list" where
  "skip_words = [''is'', ''an'', ''the'', ''and'', ''or'', ''not'', ''of'', ''on'', ''of'', ''to'']"

definition symbols :: string where
  "symbols = ''()-.,?''"

text \<open>\<^verbatim>\<open>extract_words\<close>: the loop over \<^verbatim>\<open>symbols\<close> rewrites the whole array once per symbol,
  then the filter keeps the non-empty words that \<^verbatim>\<open>skip_words\<close> does not include.\<close>

definition strip_symbols :: "string list \<Rightarrow> string list" where
  "strip_symbols words = fold (\<lambda>symbol ws. map (replaceAll symbol '''') ws) symbols words"

definition extract_words :: "string \<Rightarrow> string list" where
  "extract_words remark =
     filter (\<lambda>word. length word > 0 \<and> \<not> List.member skip_words word)
       (strip_symbols (split_ws remark))"

text \<open>The tokenizer as the specification words it: the tokens are the maximal runs of
  characters that are not white space, in input order; the six punctuation characters are
  deleted from every token; tokens that became empty and tokens in the stop-word set are
  dropped.\<close>

fun runs :: "string \<Rightarrow> string list" where
  "runs [] = []"
| "runs (c # cs) =
     (if is_space c then runs cs
      else (case cs of
              [] \<Rightarrow> [[c]]
            | d # _ \<Rightarrow> if is_space d then [c] # runs cs
                       else (case runs cs of [] \<Rightarrow> [[c]] | r # rs \<Rightarrow> (c # r) # rs)))"

definition punctuation :: "char set" where
  "punctuation = {CHR ''('', CHR '')'', CHR ''-'', CHR ''.'', CHR '','', CHR ''?''}"

definition stop_words :: "string set" where
  "stop_words = {''is'', ''an'', ''the'', ''and'', ''or'', ''not'', ''of'', ''on'', ''to''}"

definition tokenize_spec :: "string \<Rightarrow> string list" where
  "tokenize_spec remark =
     filter (\<lambda>t. t \<noteq> [] \<and> t \<notin> stop_words)
       (map (filter (\<lambda>c. c \<notin> punctuation)) (runs remark))"

subsection \<open>Data model\<close>

text \<open>A row of the log sheet as the script reads it: \<^verbatim>\<open>row.Task\<close> and \<^verbatim>\<open>row.Remark\<close> are
  strings or \<^verbatim>\<open>undefined\<close>.\<close>

record row =
  Task :: "string option"
  Remark :: "string option"

text \<open>\<^verbatim>\<open>row.Task || ''\<close>: \<^verbatim>\<open>undefined\<close> and the empty string both give the empty string.\<close>

definition or_empty :: "string option \<Rightarrow> string" where
  "or_empty field = (case field of None \<Rightarrow> [] | Some s \<Rightarrow> if s = [] then [] else s)"

text \<open>\<^verbatim>\<open>m.get(key) || 0\<close> on a map of counters or scores.\<close>

definition get_or_zero :: "('k \<times> 'v::zero) list \<Rightarrow> 'k \<Rightarrow> 'v" where
  "get_or_zero m key = (case map_of m key of None \<Rightarrow> 0 | Some v \<Rightarrow> if v = 0 then 0 else v)"

record Word =
  word :: string
  total_occurrence :: nat
  document_frequency :: nat
  tasks :: "(string \<times> nat) list"
  idf_score :: "real option"

text \<open>The two globals the training loop fills.\<close>

record model =
  word_entries :: "(string \<times> Word) list"
  total_remarks :: nat

datatype error =
    TypeError \<comment> \<open>a property of \<^verbatim>\<open>undefined\<close> was read or written\<close>
  | UndefinedOperand \<comment> \<open>a value asserted with \<^verbatim>\<open>!\<close> was \<^verbatim>\<open>undefined\<close> in arithmetic\<close>

text \<open>A \<^verbatim>\<open>for ... of\<close> loop whose body may fail: it stops at the first error.\<close>

fun for_of :: "('a \<Rightarrow> 's \<Rightarrow> error + 's) \<Rightarrow> 'a list \<Rightarrow> 's \<Rightarrow> error + 's" where
  "for_of body [] st = Inr st"
| "for_of body (x # xs) st =
     (case body x st of Inl e \<Rightarrow> Inl e | Inr st' \<Rightarrow> for_of body xs st')"

text \<open>\<^verbatim>\<open>new Set(words)\<close>: the elements in the order of their first occurrence.\<close>

definition set_add :: "'a \<Rightarrow> 'a list \<Rightarrow> 'a list" where
  "set_add x s = (if List.member s x then s else s @ [x])"

definition new_Set :: "'a list \<Rightarrow> 'a list" where
  "new_Set xs = fold set_add xs []"

subsection \<open>Training\<close>

text \<open>Body of the first pass: look the word up, create and store a zeroed entry when it is
  missing, then increment \<^verbatim>\<open>document_frequency\<close> of the stored entry.\<close>

definition first_pass_step :: "string \<Rightarrow> (string \<times> Word) list \<Rightarrow> (string \<times> Word) list" where
  "first_pass_step w entries =
     (let (word_entry, entries1) =
        (case map_of entries w of
           None \<Rightarrow>
             (let fresh = \<lparr>word = w, total_occurrence = 0, document_frequency = 0,
                           tasks = [], idf_score = None\<rparr>
              in (fresh, AList.update w fresh entries))
         | Some e \<Rightarrow> (e, entries))
      in AList.update w
           (word_entry\<lparr>document_frequency := document_frequency word_entry + 1\<rparr>) entries1)"

text \<open>Body of the second pass: the entry must exist; increment \<^verbatim>\<open>total_occurrence\<close> and the
  co-occurrence counter of the task.\<close>

definition second_pass_step ::
  "string \<Rightarrow> string \<Rightarrow> (string \<times> Word) list \<Rightarrow> error + (string \<times> Word) list" where
  "second_pass_step task w entries =
     (case map_of entries w of
        None \<Rightarrow> Inl TypeError
      | Some word_entry \<Rightarrow>
          (let task_occurrence = get_or_zero (tasks word_entry) task
           in Inr (AList.update w
                (word_entry\<lparr>total_occurrence := total_occurrence word_entry + 1,
                             tasks := AList.update task (task_occurrence + 1) (tasks word_entry)\<rparr>)
                entries)))"

text \<open>Body of the training loop for one row.\<close>

definition train_row :: "row \<Rightarrow> model \<Rightarrow> error + model" where
  "train_row r st =
     (let task = or_empty (Task r);
          remark = or_empty (Remark r)
      in if task = [] then Inr st
         else
           (let total = total_remarks st + 1;
                words = extract_words remark;
                unique_words = new_Set words;
                entries1 = fold first_pass_step unique_words (word_entries st)
            in case for_of (second_pass_step task) words entries1 of
                 Inl e \<Rightarrow> Inl e
               | Inr entries2 \<Rightarrow> Inr \<lparr>word_entries = entries2, total_remarks = total\<rparr>))"

definition training_loop :: "row list \<Rightarrow> model \<Rightarrow> error + model" where
  "training_loop rows st = for_of train_row rows st"

text \<open>The loop that stores \<^verbatim>\<open>Math.log(total_remarks / entry.document_frequency)\<close> in every
  entry. The quotient and the logarithm are the real ones; for a zero
  \<^verbatim>\<open>document_frequency\<close> JavaScript yields \<^verbatim>\<open>Infinity\<close> or \<^verbatim>\<open>NaN\<close>, which no real number
  renders, and the theorems below show that no stored entry has one.\<close>

definition calc_idf :: "model \<Rightarrow> model" where
  "calc_idf st =
     st\<lparr>word_entries :=
          map (\<lambda>(w, entry).
                 (w, entry\<lparr>idf_score :=
                        Some (ln (real (total_remarks st) / real (document_frequency entry)))\<rparr>))
              (word_entries st)\<rparr>"

definition initial :: model where
  "initial = \<lparr>word_entries = [], total_remarks = 0\<rparr>"

definition train :: "row list \<Rightarrow> error + model" where
  "train rows =
     (case training_loop rows initial of Inl e \<Rightarrow> Inl e | Inr st \<Rightarrow> Inr (calc_idf st))"

subsection \<open>Inference\<close>

text \<open>Step 1: the occurrences of every word of the remark.\<close>

definition wordFreq :: "string list \<Rightarrow> (string \<times> nat) list" where
  "wordFreq words = fold (\<lambda>w m. AList.update w (get_or_zero m w + 1) m) words []"

text \<open>Step 2, body of the loop over \<^verbatim>\<open>wordFreq.keys()\<close>: an unknown word is skipped; a known
  word adds \<^verbatim>\<open>tf * idf * coOccurrenceCount\<close> to the score of every task of its entry.\<close>

definition score_word ::
  "model \<Rightarrow> (string \<times> nat) list \<Rightarrow> nat \<Rightarrow> string \<Rightarrow> (string \<times> real) list
   \<Rightarrow> error + (string \<times> real) list" where
  "score_word m freqs totalWordsInRemark w scores0 =
     (case map_of (word_entries m) w of
        None \<Rightarrow> Inr scores0
      | Some wordEntry \<Rightarrow>
          (case map_of freqs w of
             None \<Rightarrow> Inl UndefinedOperand
           | Some freq \<Rightarrow>
               (let tf = real freq / real totalWordsInRemark;
                    idf = (case idf_score wordEntry of None \<Rightarrow> 0 | Some x \<Rightarrow> if x = 0 then 0 else x);
                    tfidf = tf * idf
                in Inr (fold (\<lambda>(taskName, coOccurrenceCount) scores.
                               let weightedScore = tfidf * real coOccurrenceCount;
                                   currentScore = get_or_zero scores taskName
                               in AList.update taskName (currentScore + weightedScore) scores)
                          (tasks wordEntry) scores0))))"

definition taskScores :: "model \<Rightarrow> string list \<Rightarrow> error + (string \<times> real) list" where
  "taskScores m words =
     (let freqs = wordFreq words;
          totalWordsInRemark = length words
      in for_of (score_word m freqs totalWordsInRemark) (map fst freqs) [])"

text \<open>Step 3: the sum of the raw scores and, when it is positive, the quotients.\<close>

definition total_of :: "(string \<times> real) list \<Rightarrow> real" where
  "total_of m = fold (\<lambda>v total. total + v) (map snd m) 0"

definition normalize :: "(string \<times> real) list \<Rightarrow> (string \<times> real) list" where
  "normalize scores =
     (let totalScore = total_of scores
      in if totalScore > 0
         then fold (\<lambda>(taskName, score) probs. AList.update taskName (score / totalScore) probs)
                scores []
         else [])"

text \<open>The second normalization. Its loop is \<^verbatim>\<open>for (let taskName in taskProbabilities)\<close>: a
  \<^verbatim>\<open>for ... in\<close> loop runs over the enumerable string-keyed properties of the object, and
  a \<^verbatim>\<open>Map\<close> keeps its entries in an internal slot, not in properties, so the loop has no
  key to visit whatever the map holds.\<close>

definition enumerable_keys :: "('k \<times> 'v) list \<Rightarrow> string list" where
  "enumerable_keys m = []"

definition renormalize_step ::
  "real \<Rightarrow> string \<Rightarrow> (string \<times> real) list \<Rightarrow> error + (string \<times> real) list" where
  "renormalize_step totalProbability taskName probs =
     (case map_of probs taskName of
        None \<Rightarrow> Inl UndefinedOperand
      | Some prob \<Rightarrow> Inr (AList.update taskName (prob / totalProbability) probs))"

definition renormalize :: "(string \<times> real) list \<Rightarrow> error + (string \<times> real) list" where
  "renormalize probs =
     (let totalProbability = total_of probs
      in if totalProbability > 0
         then for_of (renormalize_step totalProbability) (enumerable_keys probs) probs
         else Inr probs)"

text \<open>Body of the inference loop for the remark of a row without task, up to the final
  value of \<^verbatim>\<open>taskProbabilities\<close>. \<^const>\<open>None\<close> is the \<^verbatim>\<open>continue\<close> of a remark without words:
  the row is skipped and nothing is computed or printed for it.\<close>

definition infer :: "model \<Rightarrow> string \<Rightarrow> error + (string \<times> real) list option" where
  "infer m remark =
     (let words = extract_words remark
      in if length words = 0 then Inr None
         else (case taskScores m words of
                 Inl e \<Rightarrow> Inl e
               | Inr scores \<Rightarrow>
                   (case renormalize (normalize scores) of
                      Inl e \<Rightarrow> Inl e
                    | Inr probs \<Rightarrow> Inr (Some probs))))"

text \<open>The same body cut after the first normalization (the value of \<^verbatim>\<open>taskProbabilities\<close>
  before the second pass).\<close>

definition infer_first :: "model \<Rightarrow> string \<Rightarrow> error + (string \<times> real) list option" where
  "infer_first m remark =
     (let words = extract_words remark
      in if length words = 0 then Inr None
         else (case taskScores m words of
                 Inl e \<Rightarrow> Inl e
               | Inr scores \<Rightarrow> Inr (Some (normalize scores))))"

text \<open>The distribution a result stands for: a skipped row has no candidate.\<close>

definition distribution :: "(string \<times> real) list option \<Rightarrow> (string \<times> real) list" where
  "distribution result = (case result of None \<Rightarrow> [] | Some probs \<Rightarrow> probs)"

text \<open>The report: \<^verbatim>\<open>sort\<close> with the comparator \<^verbatim>\<open>probB - probA\<close> is a stable sort by
  descending probability; then the candidates of at least 5 percent, at most five of them.\<close>

definition sortedTasks :: "(string \<times> real) list \<Rightarrow> (string \<times> real) list" where
  "sortedTasks probs = sort_key (\<lambda>(taskName, probability). - probability) probs"

definition filteredTasks :: "(string \<times> real) list \<Rightarrow> (string \<times> real) list" where
  "filteredTasks probs =
     take 5 (filter (\<lambda>(taskName, probability). probability \<ge> 0.05) (sortedTasks probs))"

subsection \<open>Reference counts\<close>

text \<open>The quantities the statements compare the model with, recounted from the rows.\<close>

definition labeled :: "row \<Rightarrow> bool" where
  "labeled r \<longleftrightarrow> or_empty (Task r) \<noteq> []"

definition remark_words :: "row \<Rightarrow> string list" where
  "remark_words r = extract_words (or_empty (Remark r))"

definition labeled_rows :: "row list \<Rightarrow> row list" where
  "labeled_rows rows = filter labeled rows"

definition rows_containing :: "string \<Rightarrow> row list \<Rightarrow> nat" where
  "rows_containing w rows = length (filter (\<lambda>r. w \<in> set (remark_words r)) (labeled_rows rows))"

definition occurrences :: "string \<Rightarrow> row list \<Rightarrow> nat" where
  "occurrences w rows = sum_list (map (\<lambda>r. count_list (remark_words r) w) (labeled_rows rows))"

text \<open>The counters of a word table read as functions of the word: zero for a word without
  entry.\<close>

definition df_of :: "(string \<times> Word) list \<Rightarrow> string \<Rightarrow> nat" where
  "df_of entries w = (case map_of entries w of None \<Rightarrow> 0 | Some e \<Rightarrow> document_frequency e)"

definition occ_of :: "(string \<times> Word) list \<Rightarrow> string \<Rightarrow> nat" where
  "occ_of entries w = (case map_of entries w of None \<Rightarrow> 0 | Some e \<Rightarrow> total_occurrence e)"

text \<open>Every score of inverse document frequency stored in the model is non-negative.\<close>

definition nonneg_idf :: "model \<Rightarrow> bool" where
  "nonneg_idf m \<longleftrightarrow> (\<forall>w e x. map_of (word_entries m) w = Some e \<longrightarrow> idf_score e = Some x \<longrightarrow> 0 \<le> x)"

subsection \<open>Sample inputs\<close>

text \<open>A small log sheet: a repeated word, a row with an empty task, a labeled row whose
  remark holds stop words only, and a row without task.\<close>

definition sample_rows :: "row list" where
  "sample_rows =
     [\<lparr>Task = Some ''a'', Remark = Some ''box (box)''\<rparr>,
      \<lparr>Task = Some '''', Remark = Some ''cat''\<rparr>,
      \<lparr>Task = Some ''b'', Remark = Some ''the of on''\<rparr>,
      \<lparr>Task = None, Remark = Some ''box''\<rparr>,
      \<lparr>Task = Some ''b'', Remark = Some ''a box, the cat''\<rparr>]"

text \<open>The model that training builds from the sample rows.\<close>

definition sample_model :: model where
  "sample_model = \<lparr>word_entries =
        [(''box'',
          \<lparr>word = ''box'', total_occurrence = 3, document_frequency = 2,
             tasks = [(''a'', 2), (''b'', 1)], idf_score = Some (ln (3 / 2))\<rparr>),
         (''a'',
          \<lparr>word = ''a'', total_occurrence = 1, document_frequency = 1,
             tasks = [(''b'', 1)], idf_score = Some (ln 3)\<rparr>),
         (''cat'',
          \<lparr>word = ''cat'', total_occurrence = 1, document_frequency = 1,
             tasks = [(''b'', 1)], idf_score = Some (ln 3)\<rparr>)],
        total_remarks = 3\<rparr>"

text \<open>The scenario of the specification: two labeled rows and the remark to classify.\<close>

definition scenario_rows :: "row list" where
  "scenario_rows =
     [\<lparr>Task = Some ''website'', Remark = Some ''implement email subscribe form''\<rparr>,
      \<lparr>Task = Some ''animal-ai'',
        Remark = Some ''team: demo sofia and lanna on box model training''\<rparr>]"

definition scenario_remark :: string where
  "scenario_remark = ''team: demo to lanna and sofia on colab box model training''"


section \<open>Properties of the tokenizer\<close>

lemma replaceAll_empty: "replaceAll symbol [] w = filter (\<lambda>c. c \<noteq> symbol) w"
  by (induction w) (simp_all add: replaceAll_def)

lemma strip_symbols_filter:
  "strip_symbols ws = map (filter (\<lambda>c. c \<notin> punctuation)) ws"
  by (auto simp: strip_symbols_def symbols_def replaceAll_empty punctuation_def intro: filter_cong)

lemma member_skip_words: "List.member skip_words w \<longleftrightarrow> w \<in> stop_words"
  by (auto simp: skip_words_def stop_words_def)

lemma runs_spaces: "\<forall>c\<in>set sp. is_space c \<Longrightarrow> runs (sp @ ys) = runs ys"
  by (induction sp) simp_all

lemma runs_run:
  "xs \<noteq> [] \<Longrightarrow> \<forall>c\<in>set xs. \<not> is_space c \<Longrightarrow> ys = [] \<or> is_space (hd ys)
   \<Longrightarrow> runs (xs @ ys) = xs # runs ys"
proof (induction xs)
  case Nil
  then show ?case by simp
next
  case (Cons c xs)
  show ?case
  proof (cases xs)
    case Nil
    with Cons.prems show ?thesis by (cases ys) auto
  next
    case (Cons d ds)
    with Cons.IH Cons.prems have "runs (xs @ ys) = xs # runs ys" by simp
    with Cons Cons.prems show ?thesis by simp
  qed
qed

lemma runs_split_ws: "filter (\<lambda>p. p \<noteq> []) (split_ws s) = runs s"
proof (induction s rule: split_ws.induct)
  case (1 s)
  define piece where "piece = takeWhile (\<lambda>c. \<not> is_space c) s"
  define rest where "rest = dropWhile (\<lambda>c. \<not> is_space c) s"
  have s: "s = piece @ rest" by (simp add: piece_def rest_def)
  have piece: "\<forall>c\<in>set piece. \<not> is_space c"
    by (auto simp: piece_def dest: set_takeWhileD)
  have hd: "rest = [] \<or> is_space (hd rest)"
    using hd_dropWhile [of "\<lambda>c. \<not> is_space c" s] by (auto simp: rest_def)
  have run: "runs s = (if piece = [] then [] else [piece]) @ runs rest"
    using runs_run [OF _ piece hd] s by simp
  have unfold: "split_ws s =
      (if rest = [] then [piece] else piece # split_ws (dropWhile is_space rest))"
    by (subst split_ws.simps) (simp add: piece_def rest_def Let_def)
  show ?case
  proof (cases "rest = []")
    case True
    then show ?thesis unfolding unfold run by simp
  next
    case False
    define rest' where "rest' = dropWhile is_space rest"
    have "rest = takeWhile is_space rest @ rest'" by (simp add: rest'_def)
    moreover have "\<forall>c\<in>set (takeWhile is_space rest). is_space c"
      by (auto dest: set_takeWhileD)
    ultimately have "runs rest = runs rest'" by (metis runs_spaces)
    moreover have "filter (\<lambda>p. p \<noteq> []) (split_ws rest') = runs rest'"
      using "1.IH" [OF piece_def rest_def False] by (simp add: rest'_def)
    ultimately show ?thesis
      unfolding unfold run using False by (simp add: rest'_def)
  qed
qed

lemma filter_map_drop_empty:
  "\<not> P (f []) \<Longrightarrow> filter P (map f (filter (\<lambda>p. p \<noteq> []) xs)) = filter P (map f xs)"
  by (induction xs) auto

text \<open>The maximal runs are what their name says: every run is non-empty and free of white
  space, and together they hold exactly the characters of the input that are not white
  space, in order.\<close>

lemma runs_sound: "t \<in> set (runs s) \<Longrightarrow> t \<noteq> [] \<and> (\<forall>c\<in>set t. \<not> is_space c)"
proof (induction s arbitrary: t)
  case Nil
  then show ?case by simp
next
  case (Cons c cs)
  show ?case
  proof (cases "is_space c")
    case True
    with Cons show ?thesis by simp
  next
    case False
    note nsp = this
    show ?thesis
    proof (cases cs)
      case Nil
      with Cons.prems nsp show ?thesis by simp
    next
      case (Cons d ds)
      note cs = this
      show ?thesis
      proof (cases "is_space d")
        case True
        with Cons.prems Cons.IH nsp cs show ?thesis by auto
      next
        case False
        show ?thesis
        proof (cases "runs cs")
          case Nil
          with Cons.prems nsp cs False show ?thesis by simp
        next
          case (Cons r rs)
          have "r \<in> set (runs cs)" "\<And>x. x \<in> set rs \<Longrightarrow> x \<in> set (runs cs)"
            using Cons by simp_all
          with Cons.IH have "\<forall>c\<in>set r. \<not> is_space c" "\<And>x. x \<in> set rs \<Longrightarrow> x \<noteq> [] \<and> (\<forall>c\<in>set x. \<not> is_space c)"
            by blast+
          with Cons.prems nsp cs False Cons show ?thesis by auto
        qed
      qed
    qed
  qed
qed

lemma concat_runs: "concat (runs s) = filter (\<lambda>c. \<not> is_space c) s"
proof (induction s)
  case Nil
  then show ?case by simp
next
  case (Cons c cs)
  show ?case
  proof (cases "runs cs")
    case Nil
    with Cons show ?thesis by (cases cs) auto
  next
    case (Cons r rs)
    with Cons.IH show ?thesis by (cases cs) auto
  qed
qed

text \<open>
  \<^bold>\<open>C4.\<close> For every input string, \<^verbatim>\<open>extract_words\<close> returns what the specification's
  tokenizer returns: the maximal runs of characters that are not white space, with every
  occurrence of \<^verbatim>\<open>( ) - . , ?\<close> deleted from each of them, without the tokens that became
  empty and without the tokens that are equal to a stop word, in input order and with
  duplicates kept.
\<close>

theorem extract_words_spec: "extract_words remark = tokenize_spec remark"
proof -
  let ?f = "filter (\<lambda>c. c \<notin> punctuation)"
  let ?P = "\<lambda>t. t \<noteq> [] \<and> t \<notin> stop_words"
  have "filter ?P (map ?f (filter (\<lambda>p. p \<noteq> []) (split_ws remark)))
      = filter ?P (map ?f (split_ws remark))"
    by (rule filter_map_drop_empty) simp
  then show ?thesis
    unfolding extract_words_def tokenize_spec_def strip_symbols_filter runs_split_ws
      member_skip_words by simp
qed

section \<open>Properties of training\<close>

subsection \<open>The two passes over a remark\<close>

text \<open>\<^verbatim>\<open>new Set\<close> keeps every element once.\<close>

lemma set_fold_set_add: "set (fold set_add xs acc) = set acc \<union> set xs"
  by (induction xs arbitrary: acc) (auto simp: set_add_def)

lemma distinct_fold_set_add: "distinct acc \<Longrightarrow> distinct (fold set_add xs acc)"
  by (induction xs arbitrary: acc) (auto simp: set_add_def)

lemma set_new_Set: "set (new_Set xs) = set xs"
  by (simp add: new_Set_def set_fold_set_add)

lemma distinct_new_Set: "distinct (new_Set xs)"
  by (simp add: new_Set_def distinct_fold_set_add)

text \<open>The first pass adds 1 to the \<^verbatim>\<open>document_frequency\<close> of every unique word and creates
  the missing entries; the second pass finds every entry and adds the number of occurrences
  to \<^verbatim>\<open>total_occurrence\<close>.\<close>

lemma map_of_first_pass_step:
  "map_of (first_pass_step w es) =
     (map_of es)(w \<mapsto>
        (case map_of es w of
           None \<Rightarrow> \<lparr>word = w, total_occurrence = 0, document_frequency = 1,
                     tasks = [], idf_score = None\<rparr>
         | Some e \<Rightarrow> e\<lparr>document_frequency := document_frequency e + 1\<rparr>))"
  by (cases "map_of es w") (simp_all add: first_pass_step_def Let_def update_conv')

lemma df_of_first_pass_step:
  "df_of (first_pass_step w es) v = df_of es v + (if v = w then 1 else 0)"
  by (simp add: df_of_def map_of_first_pass_step split: option.splits)

lemma occ_of_first_pass_step: "occ_of (first_pass_step w es) v = occ_of es v"
  by (simp add: occ_of_def map_of_first_pass_step split: option.splits)

lemma dom_first_pass_step: "dom (map_of (first_pass_step w es)) = insert w (dom (map_of es))"
  by (simp add: map_of_first_pass_step)

lemma df_of_first_pass:
  "distinct us \<Longrightarrow>
   df_of (fold first_pass_step us es) v = df_of es v + (if v \<in> set us then 1 else 0)"
  by (induction us arbitrary: es) (auto simp: df_of_first_pass_step)

lemma occ_of_first_pass: "occ_of (fold first_pass_step us es) v = occ_of es v"
  by (induction us arbitrary: es) (auto simp: occ_of_first_pass_step)

lemma dom_first_pass: "dom (map_of (fold first_pass_step us es)) = dom (map_of es) \<union> set us"
  by (induction us arbitrary: es) (auto simp: dom_first_pass_step)

lemma second_pass_step_defined:
  assumes "w \<in> dom (map_of es)"
  shows "\<exists>es'. second_pass_step task w es = Inr es' \<and>
           dom (map_of es') = dom (map_of es) \<and>
           (\<forall>v. df_of es' v = df_of es v) \<and>
           (\<forall>v. occ_of es' v = occ_of es v + (if v = w then 1 else 0))"
proof -
  from assms obtain e where e: "map_of es w = Some e" by auto
  then show ?thesis
    by (auto simp: second_pass_step_def Let_def update_conv' df_of_def occ_of_def)
qed

lemma second_pass_defined:
  "set ws \<subseteq> dom (map_of es) \<Longrightarrow>
   \<exists>es'. for_of (second_pass_step task) ws es = Inr es' \<and>
         dom (map_of es') = dom (map_of es) \<and>
         (\<forall>v. df_of es' v = df_of es v) \<and>
         (\<forall>v. occ_of es' v = occ_of es v + count_list ws v)"
proof (induction ws arbitrary: es)
  case Nil
  then show ?case by simp
next
  case (Cons w ws)
  then have "w \<in> dom (map_of es)" by simp
  from second_pass_step_defined [OF this, of task]
  obtain es1 where s1: "second_pass_step task w es = Inr es1"
    and d1: "dom (map_of es1) = dom (map_of es)"
    and f1: "\<And>v. df_of es1 v = df_of es v"
    and o1: "\<And>v. occ_of es1 v = occ_of es v + (if v = w then 1 else 0)"
    by blast
  from Cons.prems d1 have "set ws \<subseteq> dom (map_of es1)" by simp
  from Cons.IH [OF this]
  obtain es2 where s2: "for_of (second_pass_step task) ws es1 = Inr es2"
    and d2: "dom (map_of es2) = dom (map_of es1)"
    and f2: "\<And>v. df_of es2 v = df_of es1 v"
    and o2: "\<And>v. occ_of es2 v = occ_of es1 v + count_list ws v"
    by blast
  show ?case
    using s1 s2 d1 d2 f1 f2 o1 o2 by auto
qed


subsection \<open>The loop over the rows\<close>

lemma train_row_unlabeled: "\<not> labeled r \<Longrightarrow> train_row r st = Inr st"
  by (simp add: train_row_def labeled_def)

lemma train_row_labeled:
  assumes "labeled r"
  shows "\<exists>st'. train_row r st = Inr st' \<and>
           total_remarks st' = total_remarks st + 1 \<and>
           dom (map_of (word_entries st')) = dom (map_of (word_entries st)) \<union> set (remark_words r) \<and>
           (\<forall>v. df_of (word_entries st') v
                  = df_of (word_entries st) v + (if v \<in> set (remark_words r) then 1 else 0)) \<and>
           (\<forall>v. occ_of (word_entries st') v
                  = occ_of (word_entries st) v + count_list (remark_words r) v)"
proof -
  define ws where "ws = remark_words r"
  define es1 where "es1 = fold first_pass_step (new_Set ws) (word_entries st)"
  have d1: "dom (map_of es1) = dom (map_of (word_entries st)) \<union> set ws"
    by (simp add: es1_def dom_first_pass set_new_Set)
  have f1: "df_of es1 v = df_of (word_entries st) v + (if v \<in> set ws then 1 else 0)" for v
    by (simp add: es1_def df_of_first_pass distinct_new_Set set_new_Set)
  have o1: "occ_of es1 v = occ_of (word_entries st) v" for v
    by (simp add: es1_def occ_of_first_pass)
  have "set ws \<subseteq> dom (map_of es1)" using d1 by blast
  from second_pass_defined [OF this, of "or_empty (Task r)"]
  obtain es2 where s2: "for_of (second_pass_step (or_empty (Task r))) ws es1 = Inr es2"
    and d2: "dom (map_of es2) = dom (map_of es1)"
    and f2: "\<And>v. df_of es2 v = df_of es1 v"
    and o2: "\<And>v. occ_of es2 v = occ_of es1 v + count_list ws v"
    by blast
  have "train_row r st = Inr \<lparr>word_entries = es2, total_remarks = total_remarks st + 1\<rparr>"
    using assms s2
    by (simp add: train_row_def labeled_def Let_def ws_def [symmetric, unfolded remark_words_def]
        es1_def [symmetric])
  then show ?thesis
    using d1 d2 f1 f2 o1 o2 by (simp add: ws_def)
qed

lemma training_loop_counts:
  "\<exists>st'. training_loop rows st = Inr st' \<and>
         total_remarks st' = total_remarks st + length (labeled_rows rows) \<and>
         dom (map_of (word_entries st'))
           = dom (map_of (word_entries st)) \<union> (\<Union>r\<in>set (labeled_rows rows). set (remark_words r)) \<and>
         (\<forall>v. df_of (word_entries st') v = df_of (word_entries st) v + rows_containing v rows) \<and>
         (\<forall>v. occ_of (word_entries st') v = occ_of (word_entries st) v + occurrences v rows)"
proof (induction rows arbitrary: st)
  case Nil
  then show ?case
    by (simp add: training_loop_def labeled_rows_def rows_containing_def occurrences_def)
next
  case (Cons r rows)
  show ?case
  proof (cases "labeled r")
    case False
    with Cons.IH [of st] show ?thesis
      by (simp add: training_loop_def train_row_unlabeled labeled_rows_def rows_containing_def
          occurrences_def)
  next
    case True
    from train_row_labeled [OF True, of st]
    obtain st1 where r1: "train_row r st = Inr st1"
      and t1: "total_remarks st1 = total_remarks st + 1"
      and d1: "dom (map_of (word_entries st1))
                 = dom (map_of (word_entries st)) \<union> set (remark_words r)"
      and f1: "\<And>v. df_of (word_entries st1) v
                 = df_of (word_entries st) v + (if v \<in> set (remark_words r) then 1 else 0)"
      and o1: "\<And>v. occ_of (word_entries st1) v
                 = occ_of (word_entries st) v + count_list (remark_words r) v"
      by blast
    from Cons.IH [of st1]
    obtain st2 where r2: "training_loop rows st1 = Inr st2"
      and t2: "total_remarks st2 = total_remarks st1 + length (labeled_rows rows)"
      and d2: "dom (map_of (word_entries st2))
                 = dom (map_of (word_entries st1))
                   \<union> (\<Union>r\<in>set (labeled_rows rows). set (remark_words r))"
      and f2: "\<And>v. df_of (word_entries st2) v = df_of (word_entries st1) v + rows_containing v rows"
      and o2: "\<And>v. occ_of (word_entries st2) v = occ_of (word_entries st1) v + occurrences v rows"
      by blast
    have "training_loop (r # rows) st = Inr st2"
      using r1 r2 by (simp add: training_loop_def)
    moreover have "total_remarks st2 = total_remarks st + length (labeled_rows (r # rows))"
      using t1 t2 True by (simp add: labeled_rows_def)
    moreover have "dom (map_of (word_entries st2))
        = dom (map_of (word_entries st))
          \<union> (\<Union>r\<in>set (labeled_rows (r # rows)). set (remark_words r))"
      using d1 d2 True by (auto simp: labeled_rows_def)
    moreover have "df_of (word_entries st2) v
        = df_of (word_entries st) v + rows_containing v (r # rows)" for v
      using f1 [of v] f2 [of v] True by (simp add: rows_containing_def labeled_rows_def)
    moreover have "occ_of (word_entries st2) v
        = occ_of (word_entries st) v + occurrences v (r # rows)" for v
      using o1 [of v] o2 [of v] True by (simp add: occurrences_def labeled_rows_def)
    ultimately show ?thesis by blast
  qed
qed

lemma map_of_calc_idf:
  "map_of (word_entries (calc_idf st)) w =
     map_option
       (\<lambda>e. e\<lparr>idf_score := Some (ln (real (total_remarks st) / real (document_frequency e)))\<rparr>)
       (map_of (word_entries st) w)"
  by (simp add: calc_idf_def map_of_map [unfolded comp_def, THEN fun_cong])

lemma total_remarks_calc_idf: "total_remarks (calc_idf st) = total_remarks st"
  by (simp add: calc_idf_def)

lemma rows_containing_pos:
  "0 < rows_containing w rows \<longleftrightarrow> (\<exists>r\<in>set (labeled_rows rows). w \<in> set (remark_words r))"
  by (auto simp: rows_containing_def filter_empty_conv)

lemma rows_containing_le_labeled: "rows_containing w rows \<le> length (labeled_rows rows)"
  by (simp add: rows_containing_def)

lemma rows_containing_le_occurrences: "rows_containing w rows \<le> occurrences w rows"
proof -
  have "length (filter (\<lambda>r. w \<in> set (remark_words r)) rs)
      \<le> sum_list (map (\<lambda>r. count_list (remark_words r) w) rs)" for rs
  proof (induction rs)
    case Nil
    then show ?case by simp
  next
    case (Cons r rs)
    have "w \<in> set (remark_words r) \<Longrightarrow> 1 \<le> count_list (remark_words r) w"
      using count_list_0_iff [of "remark_words r" w] by arith
    with Cons show ?case by auto
  qed
  then show ?thesis by (simp add: rows_containing_def occurrences_def)
qed

text \<open>What training computes, in one statement the later results draw on.\<close>

lemma train_computes:
  "\<exists>m. train rows = Inr m \<and>
       total_remarks m = length (labeled_rows rows) \<and>
       (\<forall>w. (map_of (word_entries m) w = None) = (rows_containing w rows = 0)) \<and>
       (\<forall>w e. map_of (word_entries m) w = Some e \<longrightarrow>
              document_frequency e = rows_containing w rows \<and>
              total_occurrence e = occurrences w rows \<and>
              idf_score e = Some (ln (real (length (labeled_rows rows)) / real (rows_containing w rows))))"
proof -
  from training_loop_counts [of rows initial]
  obtain st where run: "training_loop rows initial = Inr st"
    and t: "total_remarks st = length (labeled_rows rows)"
    and d: "dom (map_of (word_entries st)) = (\<Union>r\<in>set (labeled_rows rows). set (remark_words r))"
    and f: "\<And>v. df_of (word_entries st) v = rows_containing v rows"
    and o: "\<And>v. occ_of (word_entries st) v = occurrences v rows"
    by (auto simp: initial_def df_of_def occ_of_def)
  have tr: "train rows = Inr (calc_idf st)" using run by (simp add: train_def)
  have none: "(map_of (word_entries (calc_idf st)) w = None) = (rows_containing w rows = 0)" for w
  proof -
    have "(map_of (word_entries st) w = None) = (w \<notin> dom (map_of (word_entries st)))"
      by auto
    also have "\<dots> = (\<not> 0 < rows_containing w rows)"
      unfolding d rows_containing_pos by auto
    finally show ?thesis by (simp add: map_of_calc_idf)
  qed
  have some: "document_frequency e = rows_containing w rows \<and>
              total_occurrence e = occurrences w rows \<and>
              idf_score e = Some (ln (real (length (labeled_rows rows)) / real (rows_containing w rows)))"
    if "map_of (word_entries (calc_idf st)) w = Some e" for w e
  proof -
    from that obtain e0 where e0: "map_of (word_entries st) w = Some e0"
      and e: "e = e0\<lparr>idf_score := Some (ln (real (total_remarks st) / real (document_frequency e0)))\<rparr>"
      by (auto simp: map_of_calc_idf)
    from f [of w] e0 have "document_frequency e0 = rows_containing w rows" by (simp add: df_of_def)
    moreover from o [of w] e0 have "total_occurrence e0 = occurrences w rows" by (simp add: occ_of_def)
    ultimately show ?thesis using e t by simp
  qed
  show ?thesis
    using tr none some by (auto simp: total_remarks_calc_idf t)
qed

lemma rows_containing_recount:
  "rows_containing w rows = length (filter (\<lambda>r. labeled r \<and> w \<in> set (remark_words r)) rows)"
  by (simp add: rows_containing_def labeled_rows_def conj_commute)

lemma training_loop_labeled_rows:
  "training_loop (labeled_rows rows) st = training_loop rows st"
  by (induction rows arbitrary: st)
     (auto simp: training_loop_def labeled_rows_def train_row_unlabeled split: sum.splits)

lemma train_labeled_rows: "train (labeled_rows rows) = train rows"
  by (simp add: train_def training_loop_labeled_rows)

lemma labeled_rows_recount: "length (labeled_rows rows) = length (filter labeled rows)"
  by (simp add: labeled_rows_def)


subsection \<open>The trained model\<close>

text \<open>
  \<^bold>\<open>C1.\<close> Training returns a model for every sequence of rows. In it a word has an entry
  exactly when it occurs among the tokens of the remark of some labeled row (a row with a
  non-empty task), and the \<^verbatim>\<open>document_frequency\<close> of every entry is the number of labeled
  rows whose tokenized remark contains the word.
\<close>

theorem train_document_frequency:
  "\<exists>m. train rows = Inr m \<and>
       (\<forall>w. (\<exists>e. map_of (word_entries m) w = Some e)
              = (\<exists>r\<in>set rows. labeled r \<and> w \<in> set (remark_words r))) \<and>
       (\<forall>w e. map_of (word_entries m) w = Some e \<longrightarrow>
              document_frequency e
                = length (filter (\<lambda>r. labeled r \<and> w \<in> set (remark_words r)) rows))"
proof -
  from train_computes [of rows]
  obtain m where tr: "train rows = Inr m"
    and none: "\<And>w. (map_of (word_entries m) w = None) = (rows_containing w rows = 0)"
    and some: "\<And>w e. map_of (word_entries m) w = Some e \<Longrightarrow>
                 document_frequency e = rows_containing w rows"
    by blast
  have "(\<exists>e. map_of (word_entries m) w = Some e)
      = (\<exists>r\<in>set rows. labeled r \<and> w \<in> set (remark_words r))" for w
  proof -
    have "(\<exists>e. map_of (word_entries m) w = Some e) = (0 < rows_containing w rows)"
      using none [of w] by auto
    also have "\<dots> = (\<exists>r\<in>set rows. labeled r \<and> w \<in> set (remark_words r))"
      by (auto simp: rows_containing_pos labeled_rows_def)
    finally show ?thesis .
  qed
  with tr some show ?thesis
    by (auto simp: rows_containing_recount)
qed

text \<open>On the sample rows, \<^verbatim>\<open>box\<close> is in two labeled remarks (twice in the first of them) and
  in one remark without task; the stop word \<^verbatim>\<open>the\<close> gets no entry.\<close>

theorem train_document_frequency_witness:
  "\<exists>m. train sample_rows = Inr m \<and>
       (\<exists>e. map_of (word_entries m) ''box'' = Some e \<and> document_frequency e = 2) \<and>
       map_of (word_entries m) ''the'' = None"
proof -
  have lab: "map labeled sample_rows = [True, False, True, False, True]"
    by (simp add: sample_rows_def labeled_def or_empty_def)
  have ws: "map remark_words sample_rows
      = [[''box'', ''box''], [''cat''], [], [''box''], [''a'', ''box'', ''cat'']]"
    by code_simp
  obtain r1 r2 r3 r4 r5 where rows: "sample_rows = [r1, r2, r3, r4, r5]"
    by (simp add: sample_rows_def)
  from train_document_frequency [of sample_rows]
  obtain m where tr: "train sample_rows = Inr m"
    and ex: "\<And>w. (\<exists>e. map_of (word_entries m) w = Some e)
              = (\<exists>r\<in>set sample_rows. labeled r \<and> w \<in> set (remark_words r))"
    and df: "\<And>w e. map_of (word_entries m) w = Some e \<Longrightarrow>
              document_frequency e
                = length (filter (\<lambda>r. labeled r \<and> w \<in> set (remark_words r)) sample_rows)"
    by blast
  have "\<exists>e. map_of (word_entries m) ''box'' = Some e"
    using lab ws unfolding ex rows by simp
  then obtain e where e: "map_of (word_entries m) ''box'' = Some e" ..
  have "document_frequency e = 2"
    using lab ws unfolding df [OF e] rows by simp
  moreover have "\<not> (\<exists>e. map_of (word_entries m) ''the'' = Some e)"
    using lab ws unfolding ex rows by simp
  ultimately show ?thesis using tr e by auto
qed

text \<open>
  \<^bold>\<open>C2.\<close> After training, every stored entry has a non-zero \<^verbatim>\<open>document_frequency\<close> and its
  \<^verbatim>\<open>idf_score\<close> is the logarithm of \<^verbatim>\<open>total_remarks / document_frequency\<close>; a word that is in
  exactly one of the \<open>N\<close> labeled remarks has the score \<open>ln N\<close>.
\<close>

theorem train_idf_score:
  "\<exists>m. train rows = Inr m \<and>
       (\<forall>w e. map_of (word_entries m) w = Some e \<longrightarrow>
              document_frequency e \<noteq> 0 \<and>
              idf_score e
                = Some (ln (real (total_remarks m) / real (document_frequency e))) \<and>
              (length (filter (\<lambda>r. labeled r \<and> w \<in> set (remark_words r)) rows) = 1 \<longrightarrow>
               idf_score e = Some (ln (real (length (filter labeled rows))))))"
proof -
  from train_computes [of rows]
  obtain m where tr: "train rows = Inr m"
    and total: "total_remarks m = length (labeled_rows rows)"
    and none: "\<And>w. (map_of (word_entries m) w = None) = (rows_containing w rows = 0)"
    and some: "\<And>w e. map_of (word_entries m) w = Some e \<Longrightarrow>
                 document_frequency e = rows_containing w rows \<and>
                 idf_score e = Some (ln (real (length (labeled_rows rows))
                                         / real (rows_containing w rows)))"
    by blast
  have "document_frequency e \<noteq> 0 \<and>
        idf_score e = Some (ln (real (total_remarks m) / real (document_frequency e))) \<and>
        (length (filter (\<lambda>r. labeled r \<and> w \<in> set (remark_words r)) rows) = 1 \<longrightarrow>
         idf_score e = Some (ln (real (length (filter labeled rows)))))"
    if e: "map_of (word_entries m) w = Some e" for w e
  proof -
    have "rows_containing w rows \<noteq> 0" using none [of w] e by simp
    moreover have "rows_containing w rows = 1 \<Longrightarrow>
        idf_score e = Some (ln (real (length (filter labeled rows))))"
      using some [OF e] by (simp add: labeled_rows_recount)
    ultimately show ?thesis
      using some [OF e] total by (simp add: rows_containing_recount)
  qed
  with tr show ?thesis by blast
qed

text \<open>On the sample rows, \<^verbatim>\<open>cat\<close> is in one of the three labeled remarks.\<close>

theorem train_idf_score_witness:
  "\<exists>m. train sample_rows = Inr m \<and>
       (\<exists>e. map_of (word_entries m) ''cat'' = Some e \<and> document_frequency e \<noteq> 0 \<and>
            idf_score e = Some (ln 3))"
proof -
  have lab: "map labeled sample_rows = [True, False, True, False, True]"
    by (simp add: sample_rows_def labeled_def or_empty_def)
  have ws: "map remark_words sample_rows
      = [[''box'', ''box''], [''cat''], [], [''box''], [''a'', ''box'', ''cat'']]"
    by code_simp
  obtain r1 r2 r3 r4 r5 where rows: "sample_rows = [r1, r2, r3, r4, r5]"
    by (simp add: sample_rows_def)
  have one: "length (filter (\<lambda>r. labeled r \<and> ''cat'' \<in> set (remark_words r)) sample_rows) = 1"
    using lab ws unfolding rows by simp
  have three: "length (filter labeled sample_rows) = 3"
    using lab unfolding rows by simp
  from train_idf_score [of sample_rows]
  obtain m where tr: "train sample_rows = Inr m"
    and idf: "\<And>w e. map_of (word_entries m) w = Some e \<Longrightarrow>
              document_frequency e \<noteq> 0 \<and>
              (length (filter (\<lambda>r. labeled r \<and> w \<in> set (remark_words r)) sample_rows) = 1 \<longrightarrow>
               idf_score e = Some (ln (real (length (filter labeled sample_rows)))))"
    by blast
  from train_computes [of sample_rows] tr
  have "(map_of (word_entries m) ''cat'' = None) = (rows_containing ''cat'' sample_rows = 0)"
    by auto
  then obtain e where e: "map_of (word_entries m) ''cat'' = Some e"
    using one by (auto simp: rows_containing_recount)
  from idf [OF e] one three have "document_frequency e \<noteq> 0 \<and> idf_score e = Some (ln 3)"
    by simp
  with tr e show ?thesis by blast
qed

text \<open>
  \<^bold>\<open>C7.\<close> After training, \<^verbatim>\<open>total_remarks\<close> is the number of rows with a non-empty task,
  whatever their remarks tokenize to, and the rows with an empty task change nothing:
  training on the labeled rows alone gives the same model.
\<close>

theorem train_total_remarks:
  "\<exists>m. train rows = Inr m \<and>
       total_remarks m = length (filter labeled rows) \<and>
       train (filter labeled rows) = Inr m"
proof -
  from train_computes [of rows]
  obtain m where "train rows = Inr m" and "total_remarks m = length (labeled_rows rows)"
    by blast
  then show ?thesis
    using train_labeled_rows [of rows] by (simp add: labeled_rows_def)
qed

text \<open>On the sample rows the count is three: the labeled row whose remark has stop words
  only is counted, the two rows without task are not.\<close>

theorem train_total_remarks_witness:
  "\<exists>m. train sample_rows = Inr m \<and> total_remarks m = 3 \<and>
       train [\<lparr>Task = Some ''a'', Remark = Some ''box (box)''\<rparr>,
              \<lparr>Task = Some ''b'', Remark = Some ''the of on''\<rparr>,
              \<lparr>Task = Some ''b'', Remark = Some ''a box, the cat''\<rparr>] = Inr m"
proof -
  have lab: "filter labeled sample_rows =
      [\<lparr>Task = Some ''a'', Remark = Some ''box (box)''\<rparr>,
       \<lparr>Task = Some ''b'', Remark = Some ''the of on''\<rparr>,
       \<lparr>Task = Some ''b'', Remark = Some ''a box, the cat''\<rparr>]"
    by (simp add: sample_rows_def labeled_def or_empty_def)
  from train_total_remarks [of sample_rows] show ?thesis
    unfolding lab by (simp add: numeral_3_eq_3)
qed

text \<open>
  \<^bold>\<open>C8.\<close> After training, every stored entry satisfies
  \<open>1 \<le> document_frequency \<le> total_occurrence\<close>.
\<close>

theorem train_df_le_occurrence:
  "\<exists>m. train rows = Inr m \<and>
       (\<forall>w e. map_of (word_entries m) w = Some e \<longrightarrow>
              1 \<le> document_frequency e \<and> document_frequency e \<le> total_occurrence e)"
proof -
  from train_computes [of rows]
  obtain m where tr: "train rows = Inr m"
    and none: "\<And>w. (map_of (word_entries m) w = None) = (rows_containing w rows = 0)"
    and some: "\<And>w e. map_of (word_entries m) w = Some e \<Longrightarrow>
                 document_frequency e = rows_containing w rows \<and>
                 total_occurrence e = occurrences w rows"
    by blast
  have "1 \<le> document_frequency e \<and> document_frequency e \<le> total_occurrence e"
    if e: "map_of (word_entries m) w = Some e" for w e
  proof -
    have "rows_containing w rows \<noteq> 0" using none [of w] e by simp
    then show ?thesis
      using some [OF e] rows_containing_le_occurrences [of w rows] by simp
  qed
  with tr show ?thesis by blast
qed

theorem train_df_le_occurrence_witness:
  "\<exists>m. train sample_rows = Inr m \<and>
       (\<exists>e. map_of (word_entries m) ''box'' = Some e \<and>
            1 \<le> document_frequency e \<and> document_frequency e \<le> total_occurrence e)"
proof -
  have lab: "map labeled sample_rows = [True, False, True, False, True]"
    by (simp add: sample_rows_def labeled_def or_empty_def)
  have ws: "map remark_words sample_rows
      = [[''box'', ''box''], [''cat''], [], [''box''], [''a'', ''box'', ''cat'']]"
    by code_simp
  obtain r1 r2 r3 r4 r5 where rows: "sample_rows = [r1, r2, r3, r4, r5]"
    by (simp add: sample_rows_def)
  have two: "length (filter (\<lambda>r. labeled r \<and> ''box'' \<in> set (remark_words r)) sample_rows) = 2"
    using lab ws unfolding rows by simp
  from train_df_le_occurrence [of sample_rows]
  obtain m where tr: "train sample_rows = Inr m"
    and inv: "\<And>w e. map_of (word_entries m) w = Some e \<Longrightarrow>
              1 \<le> document_frequency e \<and> document_frequency e \<le> total_occurrence e"
    by blast
  from train_computes [of sample_rows] tr
  have "(map_of (word_entries m) ''box'' = None) = (rows_containing ''box'' sample_rows = 0)"
    by auto
  then obtain e where e: "map_of (word_entries m) ''box'' = Some e"
    using two by (auto simp: rows_containing_recount)
  from inv [OF e] tr e show ?thesis by blast
qed

text \<open>
  \<^bold>\<open>C10.\<close> In the second pass the lookup of every token is defined: after the first pass
  over the unique words of a remark, every word of the remark has an entry, so the second
  pass over the same words ends without the error of a missing entry; hence the body of
  the training loop, the loop and training as a whole return a model for every input.
\<close>

theorem second_pass_lookup_defined:
  "set words \<subseteq> dom (map_of (fold first_pass_step (new_Set words) entries)) \<and>
   (\<exists>entries2. for_of (second_pass_step task) words
                  (fold first_pass_step (new_Set words) entries) = Inr entries2) \<and>
   (\<exists>st'. train_row r st = Inr st') \<and>
   (\<exists>st'. training_loop rows st = Inr st') \<and>
   (\<exists>m. train rows = Inr m)"
proof -
  have sub: "set words \<subseteq> dom (map_of (fold first_pass_step (new_Set words) entries))"
    by (simp add: dom_first_pass set_new_Set)
  moreover from second_pass_defined [OF sub, of task]
  have "\<exists>entries2. for_of (second_pass_step task) words
                  (fold first_pass_step (new_Set words) entries) = Inr entries2"
    by blast
  moreover have "\<exists>st'. train_row r st = Inr st'"
    using train_row_labeled [of r st] train_row_unlabeled [of r st] by (cases "labeled r") auto
  moreover have "\<exists>st'. training_loop rows st = Inr st'"
    using training_loop_counts [of rows st] by blast
  moreover have "\<exists>m. train rows = Inr m"
    using train_computes [of rows] by blast
  ultimately show ?thesis by blast
qed


section \<open>Properties of inference\<close>

subsection \<open>Raw scores\<close>

lemma get_or_zero_alt:
  "get_or_zero m k = (case map_of m k of None \<Rightarrow> 0 | Some v \<Rightarrow> v)"
  by (simp add: get_or_zero_def split: option.splits)

lemma update_fresh: "k \<notin> fst ` set al \<Longrightarrow> AList.update k v al = al @ [(k, v)]"
  by (induction al) auto

lemma total_of_sum_list: "total_of m = sum_list (map snd m)"
proof -
  have "fold (\<lambda>v total. total + v) xs a = a + sum_list xs" for xs :: "real list" and a
    by (induction xs arbitrary: a) simp_all
  then show ?thesis by (simp add: total_of_def)
qed

text \<open>A map of scores is well formed when its keys are distinct and no score is negative;
  adding the weighted scores of a word keeps it so.\<close>

lemma nonneg_update:
  assumes "\<forall>(t, v)\<in>set al. (0::real) \<le> v" and "0 \<le> x"
  shows "\<forall>(t, v)\<in>set (AList.update k x al). 0 \<le> v"
  using assms by (induction al) auto

lemma get_or_zero_nonneg:
  assumes "\<forall>(t, v)\<in>set al. (0::real) \<le> v"
  shows "0 \<le> get_or_zero al k"
proof (cases "map_of al k")
  case None
  then show ?thesis by (simp add: get_or_zero_alt)
next
  case (Some v)
  then have "(k, v) \<in> set al" by (rule map_of_SomeD)
  with assms Some show ?thesis by (auto simp: get_or_zero_alt)
qed

lemma add_scores_wf:
  assumes "distinct (map fst s)" and "\<forall>(t, v)\<in>set s. (0::real) \<le> v" and "0 \<le> x"
  shows "distinct (map fst (fold (\<lambda>(taskName, coOccurrenceCount) scores.
                               let weightedScore = x * real coOccurrenceCount;
                                   currentScore = get_or_zero scores taskName
                               in AList.update taskName (currentScore + weightedScore) scores)
                          ts s)) \<and>
         (\<forall>(t, v)\<in>set (fold (\<lambda>(taskName, coOccurrenceCount) scores.
                               let weightedScore = x * real coOccurrenceCount;
                                   currentScore = get_or_zero scores taskName
                               in AList.update taskName (currentScore + weightedScore) scores)
                          ts s). 0 \<le> v)"
  using assms
proof (induction ts arbitrary: s)
  case Nil
  then show ?case by simp
next
  case (Cons p ts)
  obtain t c where p: "p = (t, c)" by (cases p)
  let ?s1 = "AList.update t (get_or_zero s t + x * real c) s"
  have "0 \<le> get_or_zero s t + x * real c"
    using get_or_zero_nonneg [OF Cons.prems(2), of t] Cons.prems(3) by simp
  then have "\<forall>(t, v)\<in>set ?s1. 0 \<le> v"
    using Cons.prems(2) by (rule nonneg_update [rotated])
  moreover have "distinct (map fst ?s1)"
    using Cons.prems(1) by (rule distinct_update)
  ultimately show ?case
    using Cons.IH [of ?s1] Cons.prems(3) by (simp add: p Let_def)
qed

text \<open>The scoring step never fails on a key of the frequency map, and it keeps a map of
  scores well formed when the score of the word's entry is not negative.\<close>

lemma score_word_defined:
  "w \<in> fst ` set freqs \<Longrightarrow> \<exists>s'. score_word m freqs n w s = Inr s'"
  by (cases "map_of freqs w")
     (auto simp: score_word_def Let_def map_of_eq_None_iff split: option.splits)

lemma taskScores_defined: "\<exists>scores. taskScores m words = Inr scores"
proof -
  have "set ws \<subseteq> fst ` set freqs \<Longrightarrow> \<exists>s'. for_of (score_word m freqs n) ws s = Inr s'"
    for ws freqs n s
  proof (induction ws arbitrary: s)
    case Nil
    then show ?case by simp
  next
    case (Cons w ws)
    then obtain s1 where "score_word m freqs n w s = Inr s1"
      using score_word_defined [of w freqs m n s] by auto
    with Cons show ?case by simp
  qed
  then show ?thesis by (simp add: taskScores_def Let_def)
qed


lemma score_word_wf:
  assumes "nonneg_idf m" and "score_word m freqs n w s = Inr s'"
    and "distinct (map fst s)" and "\<forall>(t, v)\<in>set s. 0 \<le> v"
  shows "distinct (map fst s') \<and> (\<forall>(t, v)\<in>set s'. 0 \<le> v)"
proof (cases "map_of (word_entries m) w")
  case None
  with assms show ?thesis by (simp add: score_word_def)
next
  case (Some e)
  with assms(2) obtain freq where freq: "map_of freqs w = Some freq"
    by (auto simp: score_word_def split: option.splits)
  define idf where "idf = (case idf_score e of None \<Rightarrow> 0 | Some x \<Rightarrow> if x = 0 then 0 else x)"
  have "0 \<le> idf"
    using assms(1) Some by (auto simp: idf_def nonneg_idf_def split: option.splits)
  then have x: "0 \<le> real freq / real n * idf" by simp
  have "s' = fold (\<lambda>(taskName, coOccurrenceCount) scores.
                               let weightedScore = (real freq / real n * idf) * real coOccurrenceCount;
                                   currentScore = get_or_zero scores taskName
                               in AList.update taskName (currentScore + weightedScore) scores)
                          (tasks e) s"
    using assms(2) Some freq by (simp add: score_word_def Let_def idf_def)
  then show ?thesis
    using add_scores_wf [OF assms(3,4) x, of "tasks e"] by simp
qed

lemma taskScores_wf:
  assumes "nonneg_idf m" and "taskScores m words = Inr scores"
  shows "distinct (map fst scores) \<and> (\<forall>(t, v)\<in>set scores. 0 \<le> v)"
proof -
  have "for_of (score_word m freqs n) ws s = Inr s' \<Longrightarrow>
        distinct (map fst s) \<Longrightarrow> \<forall>(t, v)\<in>set s. 0 \<le> v \<Longrightarrow>
        distinct (map fst s') \<and> (\<forall>(t, v)\<in>set s'. 0 \<le> v)" for ws freqs n s s'
  proof (induction ws arbitrary: s)
    case Nil
    then show ?case by simp
  next
    case (Cons w ws)
    from Cons.prems(1) obtain s1 where s1: "score_word m freqs n w s = Inr s1"
      and rest: "for_of (score_word m freqs n) ws s1 = Inr s'"
      by (auto split: sum.splits)
    from score_word_wf [OF assms(1) s1 Cons.prems(2,3)] Cons.IH [OF rest]
    show ?case by blast
  qed
  from this [of "wordFreq words" "length words" "map fst (wordFreq words)" "[]" scores] assms(2)
  show ?thesis by (simp add: taskScores_def Let_def)
qed

text \<open>The keys stay distinct whatever the model holds.\<close>

lemma add_scores_distinct:
  "distinct (map fst s) \<Longrightarrow>
   distinct (map fst (fold (\<lambda>(t, c) scores. AList.update t (g scores t c) scores) ts s))"
  by (induction ts arbitrary: s) (auto simp: distinct_update)

lemma score_word_distinct:
  assumes "score_word m freqs n w s = Inr s'" and "distinct (map fst s)"
  shows "distinct (map fst s')"
  using assms
  by (auto simp: score_word_def Let_def split: option.splits intro!: add_scores_distinct)

lemma taskScores_distinct:
  assumes "taskScores m words = Inr scores"
  shows "distinct (map fst scores)"
proof -
  have "for_of (score_word m freqs n) ws s = Inr s' \<Longrightarrow> distinct (map fst s) \<Longrightarrow>
        distinct (map fst s')" for ws freqs n s s'
  proof (induction ws arbitrary: s)
    case Nil
    then show ?case by simp
  next
    case (Cons w ws)
    from Cons.prems(1) obtain s1 where s1: "score_word m freqs n w s = Inr s1"
      and rest: "for_of (score_word m freqs n) ws s1 = Inr s'"
      by (auto split: sum.splits)
    from score_word_distinct [OF s1 Cons.prems(2)] Cons.IH [OF rest]
    show ?case by blast
  qed
  from this [of "wordFreq words" "length words" "map fst (wordFreq words)" "[]" scores] assms
  show ?thesis by (simp add: taskScores_def Let_def)
qed

text \<open>A word without entry leaves the scores as they are.\<close>

lemma score_word_unknown:
  "map_of (word_entries m) w = None \<Longrightarrow> score_word m freqs n w s = Inr s"
  by (simp add: score_word_def)

lemma for_of_skip_unknown:
  "for_of (score_word m freqs n) ws s
     = for_of (score_word m freqs n) (filter (\<lambda>w. map_of (word_entries m) w \<noteq> None) ws) s"
  by (induction ws arbitrary: s) (auto simp: score_word_unknown split: sum.splits)

lemma set_keys_wordFreq: "fst ` set (wordFreq words) = set words"
proof -
  have "fst ` set (fold (\<lambda>w m. AList.update w (get_or_zero m w + 1) m) ws acc)
      = fst ` set acc \<union> set ws" for ws and acc :: "(string \<times> nat) list"
    by (induction ws arbitrary: acc) (auto simp: dom_update)
  then show ?thesis by (simp add: wordFreq_def)
qed

lemma taskScores_all_unknown:
  assumes "\<forall>w\<in>set words. map_of (word_entries m) w = None"
  shows "taskScores m words = Inr []"
proof -
  have "filter (\<lambda>w. map_of (word_entries m) w \<noteq> None) (map fst (wordFreq words)) = []"
    using assms set_keys_wordFreq [of words] by (auto simp: filter_empty_conv)
  then show ?thesis
    unfolding taskScores_def Let_def by (subst for_of_skip_unknown) simp
qed

subsection \<open>Normalization\<close>

lemma normalize_fold:
  "distinct (map fst xs) \<Longrightarrow> fst ` set xs \<inter> fst ` set acc = {} \<Longrightarrow>
   fold (\<lambda>(taskName, score) probs. AList.update taskName (score / c) probs) xs acc
     = acc @ map (\<lambda>(taskName, score). (taskName, score / c)) xs"
proof (induction xs arbitrary: acc)
  case Nil
  then show ?case by simp
next
  case (Cons p xs)
  obtain t v where p: "p = (t, v)" by (cases p)
  have fresh: "t \<notin> fst ` set acc" using Cons.prems(2) p by auto
  have "fst ` set xs \<inter> fst ` set (acc @ [(t, v / c)]) = {}"
    using Cons.prems p by auto
  with Cons.IH [of "acc @ [(t, v / c)]"] Cons.prems(1)
  show ?case by (simp add: p update_fresh [OF fresh])
qed

lemma normalize_map:
  assumes "distinct (map fst scores)"
  shows "normalize scores =
     (if total_of scores > 0
      then map (\<lambda>(taskName, score). (taskName, score / total_of scores)) scores else [])"
  using normalize_fold [OF assms, of "[]" "total_of scores"]
  by (simp add: normalize_def Let_def)

lemma sum_list_quotients:
  "sum_list (map snd (map (\<lambda>(t, v). (t, v / c)) xs)) = sum_list (map snd xs) / (c::real)"
  by (induction xs) (auto simp: add_divide_distrib)

lemma normalize_sums_to_1:
  assumes "distinct (map fst scores)" and "normalize scores \<noteq> []"
  shows "sum_list (map snd (normalize scores)) = 1"
proof -
  from assms have pos: "total_of scores > 0"
    by (auto simp: normalize_map split: if_splits)
  with assms(1) have "normalize scores
      = map (\<lambda>(taskName, score). (taskName, score / total_of scores)) scores"
    by (simp add: normalize_map)
  then have "sum_list (map snd (normalize scores)) = sum_list (map snd scores) / total_of scores"
    by (simp only: sum_list_quotients)
  with pos show ?thesis by (simp add: total_of_sum_list)
qed

lemma normalize_nonneg:
  assumes "distinct (map fst scores)" and "\<forall>(t, v)\<in>set scores. 0 \<le> v"
  shows "\<forall>(t, p)\<in>set (normalize scores). 0 \<le> p"
  using assms by (auto simp: normalize_map)

lemma normalize_zero_total: "total_of scores = 0 \<Longrightarrow> normalize scores = []"
  by (simp add: normalize_def)

text \<open>The second normalization as the script has it: its loop visits no key.\<close>

lemma renormalize_id: "renormalize probs = Inr probs"
  by (simp add: renormalize_def enumerable_keys_def Let_def)

lemma infer_eq:
  "infer m remark =
     (if extract_words remark = [] then Inr None
      else case taskScores m (extract_words remark) of
             Inl e \<Rightarrow> Inl e
           | Inr scores \<Rightarrow> Inr (Some (normalize scores)))"
  by (simp add: infer_def Let_def renormalize_id split: sum.splits)

text \<open>In a trained model every entry counts at least one and at most all of the labeled
  remarks, so no score of inverse document frequency is negative.\<close>

lemma train_nonneg_idf:
  assumes "train rows = Inr m"
  shows "nonneg_idf m"
proof -
  from train_computes [of rows] assms
  have none: "\<And>w. (map_of (word_entries m) w = None) = (rows_containing w rows = 0)"
    and some: "\<And>w e. map_of (word_entries m) w = Some e \<Longrightarrow>
        idf_score e = Some (ln (real (length (labeled_rows rows)) / real (rows_containing w rows)))"
    by auto
  have "0 \<le> x" if e: "map_of (word_entries m) w = Some e" and x: "idf_score e = Some x" for w e x
  proof -
    have pos: "0 < rows_containing w rows" using none [of w] e by simp
    have "rows_containing w rows \<le> length (labeled_rows rows)"
      by (rule rows_containing_le_labeled)
    with pos have "1 \<le> real (length (labeled_rows rows)) / real (rows_containing w rows)"
      by (simp add: le_divide_eq_1_pos)
    then have "0 \<le> ln (real (length (labeled_rows rows)) / real (rows_containing w rows))"
      by (rule ln_ge_zero)
    with some [OF e] x show ?thesis by simp
  qed
  then show ?thesis unfolding nonneg_idf_def by blast
qed

text \<open>The probabilities add up to 1 for every value of the model type, trained or not.\<close>

lemma infer_sums_to_1:
  assumes "infer m remark = Inr (Some probs)" and "probs \<noteq> []"
  shows "sum_list (map snd probs) = 1"
proof -
  from assms(1) obtain scores where sc: "taskScores m (extract_words remark) = Inr scores"
    and probs: "probs = normalize scores"
    by (auto simp: infer_eq split: if_splits sum.splits)
  from normalize_sums_to_1 [OF taskScores_distinct [OF sc]] assms(2) probs
  show ?thesis by simp
qed

text \<open>Had the loop of the second normalization visited every key of the map, it would have
  divided every probability by 1: in exact arithmetic the outcome is the same.\<close>

lemma renormalize_step_1:
  "k \<in> fst ` set probs \<Longrightarrow> renormalize_step 1 k probs = Inr probs"
  by (cases "map_of probs k")
     (auto simp: renormalize_step_def map_of_eq_None_iff update_triv)

lemma renormalize_over_keys:
  assumes "distinct (map fst scores)"
  shows "for_of (renormalize_step (total_of (normalize scores)))
           (map fst (normalize scores)) (normalize scores) = Inr (normalize scores)"
proof (cases "normalize scores = []")
  case True
  then show ?thesis by simp
next
  case False
  have one: "total_of (normalize scores) = 1"
    using normalize_sums_to_1 [OF assms False] by (simp add: total_of_sum_list)
  have "set ks \<subseteq> fst ` set probs \<Longrightarrow> for_of (renormalize_step 1) ks probs = Inr probs"
    for ks probs
    by (induction ks) (simp_all add: renormalize_step_1)
  from this [of "map fst (normalize scores)" "normalize scores"] show ?thesis
    unfolding one by simp
qed

subsection \<open>The sample model\<close>

lemma train_sample_rows: "train sample_rows = Inr sample_model"
proof -
  have ws: "map remark_words sample_rows
      = [[''box'', ''box''], [''cat''], [], [''box''], [''a'', ''box'', ''cat'']]"
    by code_simp
  show ?thesis
    using ws [unfolded remark_words_def]
    by (simp add: train_def training_loop_def train_row_def sample_rows_def or_empty_def
        new_Set_def set_add_def first_pass_step_def second_pass_step_def get_or_zero_def
        initial_def calc_idf_def Let_def sample_model_def)
qed

lemma infer_sample_box_cat:
  "\<exists>pa pb. infer sample_model ''box cat'' = Inr (Some [(''a'', pa), (''b'', pb)])"
proof -
  have ws: "extract_words ''box cat'' = [''box'', ''cat'']" by code_simp
  have sc: "taskScores sample_model [''box'', ''cat'']
      = Inr [(''a'', ln (3 / 2)), (''b'', ln (3 / 2) / 2 + ln 3 / 2)]"
    by (simp add: taskScores_def wordFreq_def get_or_zero_alt score_word_def
        sample_model_def Let_def)
  have "0 < ln (3 / 2 :: real)" "0 < ln (3::real)" by simp_all
  then have pos: "0 < total_of [(''a'', ln (3 / 2)), (''b'', ln (3 / 2) / 2 + ln 3 / 2)]"
    by (simp add: total_of_def add_pos_pos)
  show ?thesis
    using pos by (simp add: infer_eq ws sc normalize_def Let_def)
qed


subsection \<open>The distribution of a remark\<close>

text \<open>
  \<^bold>\<open>C3.\<close> For every trained model and every remark: when inference yields a non-empty
  distribution, no probability in it is negative and the probabilities add up to 1 (in
  exact arithmetic).
\<close>

theorem infer_probabilities:
  assumes "train rows = Inr m" and "infer m remark = Inr (Some probs)" and "probs \<noteq> []"
  shows "(\<forall>(taskName, p)\<in>set probs. 0 \<le> p) \<and> sum_list (map snd probs) = 1"
proof -
  from assms(2) obtain scores where sc: "taskScores m (extract_words remark) = Inr scores"
    and probs: "probs = normalize scores"
    by (auto simp: infer_eq split: if_splits sum.splits)
  from taskScores_wf [OF train_nonneg_idf [OF assms(1)] sc]
  have d: "distinct (map fst scores)" and nn: "\<forall>(t, v)\<in>set scores. 0 \<le> v"
    by blast+
  show ?thesis
    using normalize_nonneg [OF d nn] normalize_sums_to_1 [OF d] assms(3) probs by simp
qed

text \<open>On the sample rows the remark \<^verbatim>\<open>box cat\<close> gets the two candidates \<^verbatim>\<open>a\<close> and \<^verbatim>\<open>b\<close>.\<close>

theorem infer_probabilities_witness:
  "\<exists>m probs. train sample_rows = Inr m \<and> infer m ''box cat'' = Inr (Some probs) \<and>
       map fst probs = [''a'', ''b''] \<and>
       list_all (\<lambda>(taskName, p). 0 \<le> p) probs \<and> sum_list (map snd probs) = 1"
proof -
  from infer_sample_box_cat obtain pa pb
    where inf: "infer sample_model ''box cat'' = Inr (Some [(''a'', pa), (''b'', pb)])"
    by blast
  from infer_probabilities [OF train_sample_rows inf]
  have "list_all (\<lambda>(taskName, p). 0 \<le> p) [(''a'', pa), (''b'', pb)]"
    and "sum_list (map snd [(''a'', pa), (''b'', pb)]) = 1"
    by simp_all
  with train_sample_rows inf show ?thesis by fastforce
qed

text \<open>
  \<^bold>\<open>C5.\<close> Inference returns a result for every model and every remark, never an error.
  A remark without words is skipped (no candidate); a remark whose words are all unknown
  to the model, and a remark whose raw scores add up to zero, get the empty distribution;
  and the raw scores are those of the known words alone: the scoring loop run over the
  known words only gives the same scores.
\<close>

theorem infer_never_raises:
  "(\<exists>result. infer m remark = Inr result) \<and>
   (extract_words remark = [] \<longrightarrow>
      infer m remark = Inr None \<and> distribution None = []) \<and>
   (extract_words remark \<noteq> [] \<and>
    (\<forall>w\<in>set (extract_words remark). map_of (word_entries m) w = None) \<longrightarrow>
      infer m remark = Inr (Some [])) \<and>
   (\<forall>scores. extract_words remark \<noteq> [] \<and>
      taskScores m (extract_words remark) = Inr scores \<and> total_of scores = 0 \<longrightarrow>
      infer m remark = Inr (Some [])) \<and>
   taskScores m words
     = for_of (score_word m (wordFreq words) (length words))
         (filter (\<lambda>w. map_of (word_entries m) w \<noteq> None) (map fst (wordFreq words))) []"
proof -
  obtain scores where sc: "taskScores m (extract_words remark) = Inr scores"
    using taskScores_defined by blast
  then have "\<exists>result. infer m remark = Inr result"
    by (simp add: infer_eq)
  moreover have "extract_words remark = [] \<longrightarrow>
      infer m remark = Inr None \<and> distribution None = []"
    by (simp add: infer_eq distribution_def)
  moreover have "extract_words remark \<noteq> [] \<and>
    (\<forall>w\<in>set (extract_words remark). map_of (word_entries m) w = None) \<longrightarrow>
      infer m remark = Inr (Some [])"
    using taskScores_all_unknown [of "extract_words remark" m]
    by (auto simp: infer_eq normalize_def total_of_def)
  moreover have "\<forall>scores. extract_words remark \<noteq> [] \<and>
      taskScores m (extract_words remark) = Inr scores \<and> total_of scores = 0 \<longrightarrow>
      infer m remark = Inr (Some [])"
    by (simp add: infer_eq normalize_zero_total)
  moreover have "taskScores m words
     = for_of (score_word m (wordFreq words) (length words))
         (filter (\<lambda>w. map_of (word_entries m) w \<noteq> None) (map fst (wordFreq words))) []"
    unfolding taskScores_def Let_def by (rule for_of_skip_unknown)
  ultimately show ?thesis by blast
qed

text \<open>On the model before any training: stop words only, and unknown words only.\<close>

theorem infer_never_raises_witness:
  "infer initial ''the of on'' = Inr None \<and> infer initial ''dog (cat)'' = Inr (Some [])"
proof -
  have w1: "extract_words ''the of on'' = []" by code_simp
  have w2: "extract_words ''dog (cat)'' = [''dog'', ''cat'']" by code_simp
  have unknown: "\<forall>w\<in>set (extract_words ''dog (cat)''). map_of (word_entries initial) w = None"
    by (simp add: initial_def)
  from infer_never_raises [of initial "''the of on''"] w1
  have "infer initial ''the of on'' = Inr None" by simp
  moreover from infer_never_raises [of initial "''dog (cat)''"] w2 unknown
  have "infer initial ''dog (cat)'' = Inr (Some [])" by simp
  ultimately show ?thesis by simp
qed

text \<open>
  \<^bold>\<open>C6.\<close> The second normalization changes nothing: for every model and every remark the
  final value of \<^verbatim>\<open>taskProbabilities\<close> is its value after the first normalization.
\<close>

theorem second_normalization_noop:
  "infer m remark = infer_first m remark \<and> renormalize probs = Inr probs"
  by (simp add: infer_eq infer_first_def Let_def renormalize_id)

text \<open>
  \<^bold>\<open>C9.\<close> Training on the two rows of the scenario and inferring on its remark gives the
  distribution with the single candidate \<^verbatim>\<open>animal-ai\<close>, of probability 1; it is the first
  of the sorted candidates and the only one reported.
\<close>

theorem scenario_top_candidate:
  "\<exists>m probs. train scenario_rows = Inr m \<and>
       infer m scenario_remark = Inr (Some probs) \<and>
       probs = [(''animal-ai'', 1)] \<and>
       hd (sortedTasks probs) = (''animal-ai'', 1) \<and>
       filteredTasks probs = [(''animal-ai'', 1)]"
proof -
  have rw: "map remark_words scenario_rows
      = [[''implement'', ''email'', ''subscribe'', ''form''],
         [''team:'', ''demo'', ''sofia'', ''lanna'', ''box'', ''model'', ''training'']]"
    by code_simp
  have loop: "training_loop scenario_rows initial = Inr \<lparr>word_entries =
        [(''implement'', \<lparr>word = ''implement'', total_occurrence = 1, document_frequency = 1,
             tasks = [(''website'', 1)], idf_score = None\<rparr>),
         (''email'', \<lparr>word = ''email'', total_occurrence = 1, document_frequency = 1,
             tasks = [(''website'', 1)], idf_score = None\<rparr>),
         (''subscribe'', \<lparr>word = ''subscribe'', total_occurrence = 1, document_frequency = 1,
             tasks = [(''website'', 1)], idf_score = None\<rparr>),
         (''form'', \<lparr>word = ''form'', total_occurrence = 1, document_frequency = 1,
             tasks = [(''website'', 1)], idf_score = None\<rparr>),
         (''team:'', \<lparr>word = ''team:'', total_occurrence = 1, document_frequency = 1,
             tasks = [(''animal-ai'', 1)], idf_score = None\<rparr>),
         (''demo'', \<lparr>word = ''demo'', total_occurrence = 1, document_frequency = 1,
             tasks = [(''animal-ai'', 1)], idf_score = None\<rparr>),
         (''sofia'', \<lparr>word = ''sofia'', total_occurrence = 1, document_frequency = 1,
             tasks = [(''animal-ai'', 1)], idf_score = None\<rparr>),
         (''lanna'', \<lparr>word = ''lanna'', total_occurrence = 1, document_frequency = 1,
             tasks = [(''animal-ai'', 1)], idf_score = None\<rparr>),
         (''box'', \<lparr>word = ''box'', total_occurrence = 1, document_frequency = 1,
             tasks = [(''animal-ai'', 1)], idf_score = None\<rparr>),
         (''model'', \<lparr>word = ''model'', total_occurrence = 1, document_frequency = 1,
             tasks = [(''animal-ai'', 1)], idf_score = None\<rparr>),
         (''training'', \<lparr>word = ''training'', total_occurrence = 1, document_frequency = 1,
             tasks = [(''animal-ai'', 1)], idf_score = None\<rparr>)],
        total_remarks = 2\<rparr>" (is "_ = Inr ?st")
    using rw [unfolded remark_words_def]
    by (simp add: training_loop_def train_row_def scenario_rows_def or_empty_def
        new_Set_def set_add_def first_pass_step_def second_pass_step_def get_or_zero_def
        initial_def Let_def)
  define m where "m = calc_idf ?st"
  have tr: "train scenario_rows = Inr m"
    by (simp add: train_def loop m_def)
  have ws: "extract_words scenario_remark
      = [''team:'', ''demo'', ''lanna'', ''sofia'', ''colab'', ''box'', ''model'', ''training'']"
    by code_simp
  have freqs: "wordFreq [''team:'', ''demo'', ''lanna'', ''sofia'', ''colab'', ''box'', ''model'', ''training'']
      = [(''team:'', 1), (''demo'', 1), (''lanna'', 1), (''sofia'', 1),
         (''colab'', 1), (''box'', 1), (''model'', 1), (''training'', 1)]"
    by (simp add: wordFreq_def get_or_zero_alt)
  have sc: "taskScores m [''team:'', ''demo'', ''lanna'', ''sofia'', ''colab'', ''box'', ''model'', ''training'']
      = Inr [(''animal-ai'', 7 * ln 2 / 8)]"
    unfolding taskScores_def Let_def freqs
    by (simp add: m_def calc_idf_def score_word_def get_or_zero_alt Let_def)
  have "0 < ln (2::real)" by simp
  then have inf: "infer m scenario_remark = Inr (Some [(''animal-ai'', 1)])"
    by (simp add: infer_eq ws sc normalize_def total_of_def Let_def)
  have "hd (sortedTasks [(''animal-ai'', 1)]) = (''animal-ai'', 1)"
    by (simp add: sortedTasks_def)
  moreover have "filteredTasks [(''animal-ai'', 1)] = [(''animal-ai'', 1)]"
    by (simp add: filteredTasks_def sortedTasks_def)
  ultimately show ?thesis using tr inf by blast
qed


end
